theory Spec2Isabelle
  imports Main "HOL-Library.Word"
begin

unbundle bit_operations_syntax

section \<open>Data model\<close>

text \<open>
  \<^verbatim>\<open>using Buffer = std::vector<std::byte>\<close>: a buffer is a list of bytes.
  \<^verbatim>\<open>uint64_t\<close> is \<^typ>\<open>64 word\<close>.
\<close>

type_synonym byte = "8 word"
type_synonym Buffer = "byte list"
type_synonym uint64_t = "64 word"

text \<open>
  \<^verbatim>\<open>enum class TypeId : Id { Uint, Float, String, Vector }\<close> with
  \<^verbatim>\<open>Id = uint64_t\<close>. The enumerators carry no initialiser, so
  \<^verbatim>\<open>static_cast<uint64_t>\<close> gives 0, 1, 2, 3 in declaration order.
\<close>

datatype TypeId = Uint | Float | String | Vector

fun TypeId_value :: "TypeId \<Rightarrow> uint64_t" where
  "TypeId_value Uint = 0"
| "TypeId_value Float = 1"
| "TypeId_value String = 2"
| "TypeId_value Vector = 3"

text \<open>
  The variant \<^verbatim>\<open>std::variant<IntegerType, FloatType, StringType, VectorType>\<close>
  held by \<^verbatim>\<open>Any\<close>. Each constructor carries the member of its class:
  \<^verbatim>\<open>uint64_t value_\<close>, \<^verbatim>\<open>double value_\<close>, \<^verbatim>\<open>std::string value_\<close>
  and \<^verbatim>\<open>std::vector<Any> elements_\<close>.

  A \<^verbatim>\<open>double\<close> is represented by its 64-bit object representation: the source only
  ever moves it through \<^verbatim>\<open>reinterpret_cast\<close> to and from \<^verbatim>\<open>uint64_t\<close>, which
  reads and writes that representation unchanged.
\<close>

datatype Any =
    IntegerType uint64_t
  | FloatType uint64_t
  | StringType string
  | VectorType "Any list"

text \<open>\<^verbatim>\<open>Any::getPayloadTypeId\<close>.\<close>

fun getPayloadTypeId :: "Any \<Rightarrow> TypeId" where
  "getPayloadTypeId (IntegerType v) = Uint"
| "getPayloadTypeId (FloatType v) = Float"
| "getPayloadTypeId (StringType v) = String"
| "getPayloadTypeId (VectorType v) = Vector"

text \<open>
  The outcomes of a call that does not return normally.
  \<^item> \<open>NotEnoughData\<close>: \<^verbatim>\<open>std::runtime_error("Not enough data for deserialization")\<close>,
    the specification's TruncatedInput.
  \<^item> \<open>UnknownTypeID\<close>: \<^verbatim>\<open>std::runtime_error("Unknown type ID")\<close>, the
    specification's UnknownTag.
  \<^item> \<open>ReadPastEnd\<close>: \<^verbatim>\<open>value_.assign(ptr, size)\<close> is reached with \<open>size\<close> larger
    than the number of bytes between \<open>ptr\<close> and the end of the buffer. The range is not
    valid, the behaviour is undefined (library implementations answer sizes of this
    magnitude with \<^verbatim>\<open>std::length_error\<close>); it is never the runtime error above.
  \<^item> \<open>InvalidRange\<close>: \<^verbatim>\<open>insert(pos, first, last)\<close> is called with \<open>first\<close> and
    \<open>last\<close> pointing into two different vector objects. \<open>[first, last)\<close> is not a
    range, the behaviour is undefined.
\<close>

datatype error = NotEnoughData | UnknownTypeID | ReadPastEnd | InvalidRange

section \<open>Little-endian helpers\<close>

text \<open>
  \<^verbatim>\<open>toLittleEndian<T>\<close>, only ever instantiated at \<^verbatim>\<open>T = uint64_t\<close>
  (\<^verbatim>\<open>sizeof(T) = 8\<close>). The loop writes \<^verbatim>\<open>value & 0xFF\<close> and shifts
  \<^verbatim>\<open>value >>= 8\<close>; the first argument counts the iterations left.
\<close>

fun toLittleEndian_loop :: "nat \<Rightarrow> uint64_t \<Rightarrow> byte list" where
  "toLittleEndian_loop 0 v = []"
| "toLittleEndian_loop (Suc n) v = ucast (v AND 0xFF) # toLittleEndian_loop n (drop_bit 8 v)"

definition toLittleEndian :: "uint64_t \<Rightarrow> byte list" where
  "toLittleEndian v = toLittleEndian_loop 8 v"

text \<open>
  \<^verbatim>\<open>fromLittleEndian<T>(const std::byte* data)\<close>: \<open>data\<close> is the sequence of bytes
  from the pointer to the end of the buffer; the loop reads \<open>data[0] .. data[7]\<close>
  and ors \<^verbatim>\<open>static_cast<T>(data[i]) << (i * 8)\<close> into the result. Every call in the
  source comes after a check that eight bytes are there.
\<close>

fun fromLittleEndian_loop :: "nat \<Rightarrow> nat \<Rightarrow> byte list \<Rightarrow> uint64_t \<Rightarrow> uint64_t" where
  "fromLittleEndian_loop 0 i data result = result"
| "fromLittleEndian_loop (Suc n) i data result =
     fromLittleEndian_loop n (Suc i) data (result OR push_bit (i * 8) (ucast (data ! i)))"

definition fromLittleEndian :: "byte list \<Rightarrow> uint64_t" where
  "fromLittleEndian data = fromLittleEndian_loop 8 0 data 0"

section \<open>Iterators and \<^verbatim>\<open>insert\<close>\<close>

text \<open>
  Every serializer appends with \<^verbatim>\<open>buffer.insert(buffer.end(), first, last)\<close>. The
  call is defined only when \<open>first\<close> and \<open>last\<close> point into the same object and
  \<open>first\<close> is not behind \<open>last\<close>, and then it appends the elements in between. An
  iterator therefore records the object it points into, that object's contents and a
  position. Objects are numbered in the order in which a function body creates them.
  \<open>begin_of\<close> and \<open>end_of\<close> are \<^verbatim>\<open>.begin()\<close> and \<^verbatim>\<open>.end()\<close>.
\<close>

datatype iterator = Iterator (it_object: nat) (it_contents: "byte list") (it_position: nat)

definition begin_of :: "nat \<Rightarrow> byte list \<Rightarrow> iterator" where
  "begin_of obj v = Iterator obj v 0"

definition end_of :: "nat \<Rightarrow> byte list \<Rightarrow> iterator" where
  "end_of obj v = Iterator obj v (length v)"

definition insert_at_end :: "Buffer \<Rightarrow> iterator \<Rightarrow> iterator \<Rightarrow> error + Buffer" where
  "insert_at_end buffer first_it last_it =
     (if it_object first_it = it_object last_it \<and> it_position first_it \<le> it_position last_it
      then Inr (buffer @ take (it_position last_it - it_position first_it)
                            (drop (it_position first_it) (it_contents first_it)))
      else Inl InvalidRange)"

text \<open>
  \<^verbatim>\<open>reinterpret_cast\<close> between \<^verbatim>\<open>char\<close> and \<^verbatim>\<open>std::byte\<close>: the same
  eight bits.
\<close>

definition byte_of_char :: "char \<Rightarrow> byte" where
  "byte_of_char c = of_char c"

definition char_of_byte :: "byte \<Rightarrow> char" where
  "char_of_byte b = char_of (unat b)"

section \<open>Serialization\<close>

text \<open>
  A serializer takes the \<^verbatim>\<open>Buffer&\<close> it appends to and returns the buffer after
  the call. \<open>val\<close>, \<open>elems\<close> and \<open>storage\<close> are the members \<^verbatim>\<open>value_\<close>,
  \<^verbatim>\<open>elements_\<close> and \<^verbatim>\<open>storage_\<close>.

  \<^verbatim>\<open>IntegerType::serialize\<close> binds the encoded bytes to the local \<open>le\<close> (object 0)
  and inserts \<open>[le.begin(), le.end())\<close>. \<^verbatim>\<open>FloatType::serialize\<close> does the same
  with the bit pattern of the double.
\<close>

definition IntegerType_serialize :: "uint64_t \<Rightarrow> Buffer \<Rightarrow> error + Buffer" where
  "IntegerType_serialize val buffer =
     (let le = toLittleEndian val in insert_at_end buffer (begin_of 0 le) (end_of 0 le))"

definition FloatType_serialize :: "uint64_t \<Rightarrow> Buffer \<Rightarrow> error + Buffer" where
  "FloatType_serialize val buffer =
     (let le = toLittleEndian val in insert_at_end buffer (begin_of 0 le) (end_of 0 le))"

text \<open>
  \<^verbatim>\<open>StringType::serialize\<close>: the length from the local \<open>sizeLe\<close> (object 0), then
  the characters between \<^verbatim>\<open>value_.data()\<close> and
  \<^verbatim>\<open>value_.data() + value_.size()\<close>, two pointers into the string's own array
  (object 1).
\<close>

definition StringType_serialize :: "string \<Rightarrow> Buffer \<Rightarrow> error + Buffer" where
  "StringType_serialize val buffer =
     (let sizeLe = toLittleEndian (of_nat (length val)) in
      case insert_at_end buffer (begin_of 0 sizeLe) (end_of 0 sizeLe) of
        Inl e \<Rightarrow> Inl e
      | Inr buffer' \<Rightarrow>
          (let data = map byte_of_char val in
           insert_at_end buffer' (Iterator 1 data 0) (Iterator 1 data (0 + length val))))"

text \<open>
  The tag written by \<^verbatim>\<open>Any::serialize\<close>, the same statement in each of the four
  branches:
  \<^verbatim>\<open>buffer.insert(buffer.end(), toLittleEndian(static_cast<uint64_t>(TypeId::X)).begin(),
                toLittleEndian(static_cast<uint64_t>(TypeId::X)).end())\<close>.
  \<^verbatim>\<open>toLittleEndian\<close> returns its vector by value and is called twice, so
  \<^verbatim>\<open>.begin()\<close> is taken from one temporary (object 0) and \<^verbatim>\<open>.end()\<close> from
  another (object 1); both live until the end of the statement. The serializers above
  and below keep the vector in a local and take both iterators from it.
\<close>

definition write_TypeId :: "TypeId \<Rightarrow> Buffer \<Rightarrow> error + Buffer" where
  "write_TypeId t buffer =
     insert_at_end buffer (begin_of 0 (toLittleEndian (TypeId_value t)))
                          (end_of 1 (toLittleEndian (TypeId_value t)))"

text \<open>
  \<^verbatim>\<open>Any::serialize\<close> (the visitor's \<^verbatim>\<open>if constexpr\<close> chain on the active
  alternative, then \<^verbatim>\<open>arg.serialize(buffer)\<close>), \<^verbatim>\<open>VectorType::serialize\<close> and
  its loop \<^verbatim>\<open>for (const auto& element : elements_) element.serialize(buffer)\<close>.
\<close>

fun Any_serialize :: "Any \<Rightarrow> Buffer \<Rightarrow> error + Buffer"
  and VectorType_serialize :: "Any list \<Rightarrow> Buffer \<Rightarrow> error + Buffer"
  and serialize_elements :: "Any list \<Rightarrow> Buffer \<Rightarrow> error + Buffer"
where
  "Any_serialize (IntegerType arg) buffer =
     (case write_TypeId Uint buffer of
        Inl e \<Rightarrow> Inl e | Inr buffer' \<Rightarrow> IntegerType_serialize arg buffer')"
| "Any_serialize (FloatType arg) buffer =
     (case write_TypeId Float buffer of
        Inl e \<Rightarrow> Inl e | Inr buffer' \<Rightarrow> FloatType_serialize arg buffer')"
| "Any_serialize (StringType arg) buffer =
     (case write_TypeId String buffer of
        Inl e \<Rightarrow> Inl e | Inr buffer' \<Rightarrow> StringType_serialize arg buffer')"
| "Any_serialize (VectorType arg) buffer =
     (case write_TypeId Vector buffer of
        Inl e \<Rightarrow> Inl e | Inr buffer' \<Rightarrow> VectorType_serialize arg buffer')"
| "VectorType_serialize elems buffer =
     (let sizeLe = toLittleEndian (of_nat (length elems)) in
      case insert_at_end buffer (begin_of 0 sizeLe) (end_of 0 sizeLe) of
        Inl e \<Rightarrow> Inl e
      | Inr buffer' \<Rightarrow> serialize_elements elems buffer')"
| "serialize_elements [] buffer = Inr buffer"
| "serialize_elements (element # elements) buffer =
     (case Any_serialize element buffer of
        Inl e \<Rightarrow> Inl e | Inr buffer' \<Rightarrow> serialize_elements elements buffer')"

text \<open>
  \<^verbatim>\<open>Serializator::serialize\<close>: a fresh buffer, the count of stored values, then the
  same loop over \<^verbatim>\<open>storage_\<close>.
\<close>

definition Serializator_serialize :: "Any list \<Rightarrow> error + Buffer" where
  "Serializator_serialize storage =
     (let buffer = []; sizeLe = toLittleEndian (of_nat (length storage)) in
      case insert_at_end buffer (begin_of 0 sizeLe) (end_of 0 sizeLe) of
        Inl e \<Rightarrow> Inl e
      | Inr buffer' \<Rightarrow> serialize_elements storage buffer')"

section \<open>Deserialization\<close>

text \<open>
  The iterator pair \<open>(begin, end)\<close> of a deserializer is represented by \<open>input\<close>, the
  bytes from \<open>begin\<close> up to \<open>end\<close>: \<^verbatim>\<open>std::distance(begin, end)\<close> is
  \<open>length input\<close>, \<^verbatim>\<open>&(*begin)\<close> points at \<open>input\<close>, and the iterator a call
  returns is represented by the bytes from it up to \<open>end\<close>.

  \<^verbatim>\<open>IntegerType::deserialize\<close>, \<^verbatim>\<open>FloatType::deserialize\<close>,
  \<^verbatim>\<open>StringType::deserialize\<close> and \<^verbatim>\<open>Any::deserialize\<close> assign their member
  only after every check has passed, so a call that throws leaves the object as it
  was: the model returns the error alone, or the new member with the new iterator.
\<close>

definition IntegerType_deserialize :: "Buffer \<Rightarrow> error + (uint64_t \<times> Buffer)" where
  "IntegerType_deserialize input =
     (if length input < 8 then Inl NotEnoughData
      else Inr (fromLittleEndian input, drop 8 input))"

definition FloatType_deserialize :: "Buffer \<Rightarrow> error + (uint64_t \<times> Buffer)" where
  "FloatType_deserialize input =
     (if length input < 8 then Inl NotEnoughData
      else let rawValue = fromLittleEndian input in Inr (rawValue, drop 8 input))"

text \<open>
  \<^verbatim>\<open>StringType::deserialize\<close>. The second check is
  \<^verbatim>\<open>std::distance(begin, end) < static_cast<int64_t>(size)\<close>: the declared size is
  compared as a signed 64-bit number (\<open>sint\<close>). When that check lets a size through
  that is larger than the bytes left, \<^verbatim>\<open>value_.assign(ptr, size)\<close> is called on a
  range that leaves the buffer (\<open>ReadPastEnd\<close>). Otherwise the string is assigned the
  next \<open>size\<close> bytes and the returned iterator is \<open>begin + size\<close>; with size 0
  nothing is read.
\<close>

definition StringType_deserialize :: "Buffer \<Rightarrow> error + (string \<times> Buffer)" where
  "StringType_deserialize input =
     (if length input < 8 then Inl NotEnoughData
      else let size = fromLittleEndian input; rest = drop 8 input in
        if int (length rest) < sint size then Inl NotEnoughData
        else if length rest < unat size then Inl ReadPastEnd
        else Inr (map char_of_byte (take (unat size) rest), drop (unat size) rest))"

text \<open>
  \<^verbatim>\<open>Any::deserialize\<close>, \<^verbatim>\<open>VectorType::deserialize\<close> and the element loop
  \<^verbatim>\<open>for (uint64_t i = 0; i < size; ++i) { Any any; begin = any.deserialize(begin, end);
  elements_.push_back(any); }\<close>.

  \<^verbatim>\<open>VectorType::deserialize\<close> works in place: it clears \<^verbatim>\<open>elements_\<close> after
  the count has been read and pushes each element as soon as it is decoded. Its model takes
  \<^verbatim>\<open>elements_\<close> as the call finds it and returns \<^verbatim>\<open>elements_\<close> as the call
  leaves it, paired with the exception thrown or the iterator returned.
  \<^verbatim>\<open>Any::deserialize\<close> calls it on a local \<^verbatim>\<open>VectorType value\<close> (empty on
  construction) and copies \<open>value\<close> into \<^verbatim>\<open>payload_\<close> only when the call returns.

  The \<^verbatim>\<open>switch\<close> compares the decoded discriminant with the four enumerators;
  \<^verbatim>\<open>default\<close> throws.
\<close>

function Any_deserialize :: "Buffer \<Rightarrow> error + (Any \<times> Buffer)"
  and VectorType_deserialize :: "Any list \<Rightarrow> Buffer \<Rightarrow> Any list \<times> (error + Buffer)"
  and deserialize_elements ::
    "uint64_t \<Rightarrow> uint64_t \<Rightarrow> Buffer \<Rightarrow> Any list \<Rightarrow> Any list \<times> (error + Buffer)"
where
  "Any_deserialize input =
     (if length input < 8 then Inl NotEnoughData
      else let typeId = fromLittleEndian input; rest = drop 8 input in
        if typeId = TypeId_value Uint then
          (case IntegerType_deserialize rest of
             Inl e \<Rightarrow> Inl e
           | Inr (val, rest') \<Rightarrow> Inr (IntegerType val, rest'))
        else if typeId = TypeId_value Float then
          (case FloatType_deserialize rest of
             Inl e \<Rightarrow> Inl e
           | Inr (val, rest') \<Rightarrow> Inr (FloatType val, rest'))
        else if typeId = TypeId_value String then
          (case StringType_deserialize rest of
             Inl e \<Rightarrow> Inl e
           | Inr (val, rest') \<Rightarrow> Inr (StringType val, rest'))
        else if typeId = TypeId_value Vector then
          (case VectorType_deserialize [] rest of
             (elems, Inl e) \<Rightarrow> Inl e
           | (elems, Inr rest') \<Rightarrow> Inr (VectorType elems, rest'))
        else Inl UnknownTypeID)"
| "VectorType_deserialize elems input =
     (if length input < 8 then (elems, Inl NotEnoughData)
      else deserialize_elements 0 (fromLittleEndian input) (drop 8 input) [])"
| "deserialize_elements i sz input elems =
     (if i < sz then
        (case Any_deserialize input of
           Inl e \<Rightarrow> (elems, Inl e)
         | Inr (any, rest) \<Rightarrow> deserialize_elements (i + 1) sz rest (elems @ [any]))
      else (elems, Inr input))"
  by pat_completeness auto

text \<open>
  Termination: the element loop calls itself on what the decoded element left of the
  input, so the proof needs that a successful \<open>Any_deserialize\<close> consumes bytes.
\<close>

lemma IntegerType_deserialize_length:
  "IntegerType_deserialize input = Inr (v, rest) \<Longrightarrow> length rest + 8 = length input"
  by (auto simp: IntegerType_deserialize_def split: if_splits)

lemma FloatType_deserialize_length:
  "FloatType_deserialize input = Inr (v, rest) \<Longrightarrow> length rest + 8 = length input"
  by (auto simp: FloatType_deserialize_def Let_def split: if_splits)

lemma StringType_deserialize_length:
  "StringType_deserialize input = Inr (v, rest) \<Longrightarrow> length rest + 8 + length v = length input"
  by (auto simp: StringType_deserialize_def Let_def split: if_splits)

lemma deserialize_dom_length:
  "Any_deserialize_VectorType_deserialize_deserialize_elements_dom (Inl input1) \<Longrightarrow>
     (\<forall>v r. Any_deserialize input1 = Inr (v, r) \<longrightarrow> length r + 16 \<le> length input1)"
  "Any_deserialize_VectorType_deserialize_deserialize_elements_dom (Inr (Inl (elems2, input2))) \<Longrightarrow>
     (\<forall>elems' r. VectorType_deserialize elems2 input2 = (elems', Inr r)
        \<longrightarrow> length r + 8 \<le> length input2)"
  "Any_deserialize_VectorType_deserialize_deserialize_elements_dom
     (Inr (Inr (i, sz, input3, elems3))) \<Longrightarrow>
     (\<forall>elems' r. deserialize_elements i sz input3 elems3 = (elems', Inr r)
        \<longrightarrow> length r \<le> length input3)"
proof (induct rule: Any_deserialize_VectorType_deserialize_deserialize_elements.pinduct)
  case (1 input)
  show ?case
    using 1(2)
    by (auto simp: Any_deserialize.psimps [OF 1(1)] Let_def
        dest!: IntegerType_deserialize_length FloatType_deserialize_length
          StringType_deserialize_length
        split: if_splits sum.splits prod.splits)
next
  case (2 elems input)
  show ?case
    using 2(2)
    by (auto simp: VectorType_deserialize.psimps [OF 2(1)] split: if_splits)
next
  case (3 i sz input elems)
  show ?case
    using 3(2,3)
    by (fastforce simp: deserialize_elements.psimps [OF 3(1)]
        split: if_splits sum.splits prod.splits)
qed

termination Any_deserialize
  apply (relation "inv_image (less_than <*lex*> less_than)
     (\<lambda>x. case x of Inl input \<Rightarrow> (length input, 0::nat)
         | Inr (Inl (elems, input)) \<Rightarrow> (length input, 0)
         | Inr (Inr (i, sz, input, elems)) \<Rightarrow> (length input, 1))")
  subgoal by (intro wf_inv_image wf_lex_prod wf_less_than)
  subgoal by simp
  subgoal by simp
  subgoal by simp
  subgoal for i sz input elems b x y
    using deserialize_dom_length(1) [of input] by auto
  done

declare Any_deserialize.simps [simp del]
declare VectorType_deserialize.simps [simp del]
declare deserialize_elements.simps [simp del]

text \<open>
  \<^verbatim>\<open>Serializator::deserialize\<close> (static): the count, then the same loop pushing
  into the local \<open>result\<close>, which is returned when the loop ends and destroyed when
  an element throws.
\<close>

definition Serializator_deserialize :: "Buffer \<Rightarrow> error + Any list" where
  "Serializator_deserialize buffer =
     (if length buffer < 8 then Inl NotEnoughData
      else case deserialize_elements 0 (fromLittleEndian buffer) (drop 8 buffer) [] of
             (result, Inl e) \<Rightarrow> Inl e
           | (result, Inr rest) \<Rightarrow> Inr result)"

section \<open>Properties of the little-endian helpers\<close>

lemma ucast_low_byte: "(ucast (v AND 0xFF :: uint64_t) :: byte) = ucast v"
proof -
  have "v AND 0xFF = take_bit 8 v"
    using take_bit_eq_mask [of 8 v] by (simp add: mask_eq_exp_minus_1)
  then show ?thesis by (auto intro!: bit_word_eqI simp: bit_simps)
qed

lemma toLittleEndian_loop_nth:
  "k < n \<Longrightarrow> toLittleEndian_loop n v ! k = ucast (drop_bit (8 * k) v)"
proof (induction n arbitrary: v k)
  case 0
  then show ?case by simp
next
  case (Suc n)
  show ?case
  proof (cases k)
    case 0
    then show ?thesis by (simp add: ucast_low_byte)
  next
    case (Suc j)
    then show ?thesis using Suc.IH [of j "drop_bit 8 v"] Suc.prems
      by (simp add: drop_bit_drop_bit add.commute)
  qed
qed

lemma length_toLittleEndian_loop: "length (toLittleEndian_loop n v) = n"
  by (induction n arbitrary: v) auto

lemma length_toLittleEndian [simp]: "length (toLittleEndian v) = 8"
  by (simp add: toLittleEndian_def length_toLittleEndian_loop)

lemma toLittleEndian_nth: "i < 8 \<Longrightarrow> toLittleEndian v ! i = ucast (drop_bit (8 * i) v)"
  by (simp add: toLittleEndian_def toLittleEndian_loop_nth)

lemma bit_fromLittleEndian_loop:
  "bit (fromLittleEndian_loop n i data result) m \<longleftrightarrow>
     bit result m \<or>
     (m < 64 \<and> i \<le> m div 8 \<and> m div 8 < i + n \<and> bit (data ! (m div 8)) (m mod 8))"
proof (induction n arbitrary: i result)
  case 0
  then show ?case by auto
next
  case (Suc n)
  have shifted: "bit (push_bit (i * 8) (ucast (data ! i) :: uint64_t)) m \<longleftrightarrow>
        (m < 64 \<and> m div 8 = i \<and> bit (data ! i) (m mod 8))"
  proof -
    have "bit (push_bit (i * 8) (ucast (data ! i) :: uint64_t)) m \<longleftrightarrow>
        (m < 64 \<and> i * 8 \<le> m \<and> m - i * 8 < 8 \<and> bit (data ! i) (m - i * 8))"
      by (auto simp: bit_simps dest: bit_imp_le_length)
    moreover have "i * 8 \<le> m \<and> m - i * 8 < 8 \<longleftrightarrow> m div 8 = i"
      by auto
    moreover have "m div 8 = i \<Longrightarrow> m - i * 8 = m mod 8"
      by (metis minus_div_mult_eq_mod)
    ultimately show ?thesis by auto
  qed
  show ?case
    unfolding fromLittleEndian_loop.simps Suc.IH bit_or_iff shifted
    by (auto simp: less_Suc_eq_le Suc_le_eq le_less)
qed

lemma fromLittleEndian_cong:
  "take 8 xs = take 8 ys \<Longrightarrow> fromLittleEndian xs = fromLittleEndian ys"
proof (rule bit_word_eqI)
  fix m
  assume eq: "take 8 xs = take 8 ys" and "m < LENGTH(64)"
  then have "m div 8 < 8" by simp
  then have "xs ! (m div 8) = ys ! (m div 8)"
    using eq by (metis nth_take)
  then show "bit (fromLittleEndian xs) m = bit (fromLittleEndian ys) m"
    by (simp add: fromLittleEndian_def bit_fromLittleEndian_loop)
qed

lemma fromLittleEndian_append:
  "8 \<le> length xs \<Longrightarrow> fromLittleEndian (xs @ ys) = fromLittleEndian xs"
  by (rule fromLittleEndian_cong) simp

lemma fromLittleEndian_toLittleEndian:
  "fromLittleEndian (toLittleEndian v @ rest) = v"
proof (rule bit_word_eqI)
  fix m
  assume m: "m < LENGTH(64)"
  then have d: "m div 8 < 8" by simp
  have "bit (fromLittleEndian (toLittleEndian v @ rest)) m
      \<longleftrightarrow> bit ((toLittleEndian v @ rest) ! (m div 8)) (m mod 8)"
    using m d by (simp add: fromLittleEndian_def bit_fromLittleEndian_loop)
  also have "(toLittleEndian v @ rest) ! (m div 8) = ucast (drop_bit (8 * (m div 8)) v)"
    using d by (simp add: nth_append toLittleEndian_nth)
  also have "bit (ucast (drop_bit (8 * (m div 8)) v) :: byte) (m mod 8) \<longleftrightarrow> bit v m"
    by (simp add: bit_simps)
  finally show "bit (fromLittleEndian (toLittleEndian v @ rest)) m = bit v m" .
qed

section \<open>Properties of the decoders\<close>

lemma char_of_byte_of_char [simp]: "char_of_byte (byte_of_char c) = c"
proof -
  have "unat (of_char c :: byte) = unat (of_nat (of_char c) :: byte)"
    by (simp only: of_nat_of_char)
  also have "\<dots> = of_char c mod 256"
    by (simp add: unat_of_nat)
  finally show ?thesis
    by (simp add: char_of_byte_def byte_of_char_def)
qed

lemma insert_at_end_whole:
  "insert_at_end buffer (begin_of obj v) (end_of obj v) = Inr (buffer @ v)"
  by (simp add: insert_at_end_def begin_of_def end_of_def)

text \<open>What \<open>Any_deserialize\<close> does after a tag that \<open>toLittleEndian\<close> wrote.\<close>

lemma Any_deserialize_tagged:
  "Any_deserialize (toLittleEndian code @ payload) =
     (if code = 0 then
        (case IntegerType_deserialize payload of
           Inl e \<Rightarrow> Inl e | Inr (val, rest) \<Rightarrow> Inr (IntegerType val, rest))
      else if code = 1 then
        (case FloatType_deserialize payload of
           Inl e \<Rightarrow> Inl e | Inr (val, rest) \<Rightarrow> Inr (FloatType val, rest))
      else if code = 2 then
        (case StringType_deserialize payload of
           Inl e \<Rightarrow> Inl e | Inr (val, rest) \<Rightarrow> Inr (StringType val, rest))
      else if code = 3 then
        (case VectorType_deserialize [] payload of
           (elems, Inl e) \<Rightarrow> Inl e | (elems, Inr rest) \<Rightarrow> Inr (VectorType elems, rest))
      else Inl UnknownTypeID)"
  by (simp add: Any_deserialize.simps [of "toLittleEndian code @ payload"]
      fromLittleEndian_toLittleEndian Let_def)

text \<open>A successful decode is not disturbed by bytes appended to the input.\<close>

lemma IntegerType_deserialize_append:
  "IntegerType_deserialize input = Inr (v, rest) \<Longrightarrow>
     IntegerType_deserialize (input @ extra) = Inr (v, rest @ extra)"
  by (auto simp: IntegerType_deserialize_def fromLittleEndian_append split: if_splits)

lemma FloatType_deserialize_append:
  "FloatType_deserialize input = Inr (v, rest) \<Longrightarrow>
     FloatType_deserialize (input @ extra) = Inr (v, rest @ extra)"
  by (auto simp: FloatType_deserialize_def Let_def fromLittleEndian_append split: if_splits)

lemma StringType_deserialize_append:
  "StringType_deserialize input = Inr (v, rest) \<Longrightarrow>
     StringType_deserialize (input @ extra) = Inr (v, rest @ extra)"
  by (auto simp: StringType_deserialize_def Let_def fromLittleEndian_append split: if_splits)

lemma deserialize_append:
  "\<forall>v r. Any_deserialize input1 = Inr (v, r)
      \<longrightarrow> Any_deserialize (input1 @ extra) = Inr (v, r @ extra)"
  "\<forall>elems' r. VectorType_deserialize elems2 input2 = (elems', Inr r)
      \<longrightarrow> VectorType_deserialize elems2 (input2 @ extra) = (elems', Inr (r @ extra))"
  "\<forall>elems' r. deserialize_elements i sz input3 elems3 = (elems', Inr r)
      \<longrightarrow> deserialize_elements i sz (input3 @ extra) elems3 = (elems', Inr (r @ extra))"
proof (induct input1 and elems2 input2 and i sz input3 elems3
    rule: Any_deserialize_VectorType_deserialize_deserialize_elements.induct)
  case (1 input)
  show ?case
  proof (intro allI impI)
    fix v r
    assume ok: "Any_deserialize input = Inr (v, r)"
    then have len: "\<not> length input < 8"
      by (auto simp: Any_deserialize.simps [of input])
    then have tag: "fromLittleEndian (input @ extra) = fromLittleEndian input"
      and rest: "drop 8 (input @ extra) = drop 8 input @ extra"
      by (simp_all add: fromLittleEndian_append)
    show "Any_deserialize (input @ extra) = Inr (v, r @ extra)"
      using ok len 1
      unfolding Any_deserialize.simps [of input] Any_deserialize.simps [of "input @ extra"]
        tag rest Let_def
      by (auto split: if_splits sum.splits prod.splits
          dest: IntegerType_deserialize_append [where extra = extra]
            FloatType_deserialize_append [where extra = extra]
            StringType_deserialize_append [where extra = extra])
  qed
next
  case (2 elems input)
  show ?case
  proof (intro allI impI)
    fix elems' r
    assume ok: "VectorType_deserialize elems input = (elems', Inr r)"
    then have len: "\<not> length input < 8"
      by (auto simp: VectorType_deserialize.simps [of elems input])
    then have tag: "fromLittleEndian (input @ extra) = fromLittleEndian input"
      and rest: "drop 8 (input @ extra) = drop 8 input @ extra"
      by (simp_all add: fromLittleEndian_append)
    show "VectorType_deserialize elems (input @ extra) = (elems', Inr (r @ extra))"
      using ok len 2
      unfolding VectorType_deserialize.simps [of elems input]
        VectorType_deserialize.simps [of elems "input @ extra"] tag rest
      by auto
  qed
next
  case (3 i sz input elems)
  show ?case
  proof (intro allI impI)
    fix elems' r
    assume ok: "deserialize_elements i sz input elems = (elems', Inr r)"
    show "deserialize_elements i sz (input @ extra) elems = (elems', Inr (r @ extra))"
    proof (cases "i < sz")
      case False
      then show ?thesis using ok
        by (simp add: deserialize_elements.simps [of i sz])
    next
      case True
      with ok obtain a rest where a: "Any_deserialize input = Inr (a, rest)"
        and next_ok: "deserialize_elements (i + 1) sz rest (elems @ [a]) = (elems', Inr r)"
        by (auto simp: deserialize_elements.simps [of i sz input] split: sum.splits prod.splits)
      from 3(1) [OF True] a have "Any_deserialize (input @ extra) = Inr (a, rest @ extra)"
        by blast
      moreover from 3(2) [OF True a refl] next_ok
      have "deserialize_elements (i + 1) sz (rest @ extra) (elems @ [a]) = (elems', Inr (r @ extra))"
        by blast
      ultimately show ?thesis using True
        by (simp add: deserialize_elements.simps [of i sz "input @ extra"])
    qed
  qed
qed

text \<open>
  A successful decode returns a suffix of its input: a tagged value takes at least 16
  bytes (tag and shortest payload), a vector 8 bytes and 16 for each element.
\<close>

lemma IntegerType_deserialize_consumes:
  "IntegerType_deserialize input = Inr (v, rest) \<Longrightarrow> \<exists>c. input = c @ rest \<and> length c = 8"
  by (rule exI [of _ "take 8 input"])
    (auto simp: IntegerType_deserialize_def split: if_splits)

lemma FloatType_deserialize_consumes:
  "FloatType_deserialize input = Inr (v, rest) \<Longrightarrow> \<exists>c. input = c @ rest \<and> length c = 8"
  by (rule exI [of _ "take 8 input"])
    (auto simp: FloatType_deserialize_def Let_def split: if_splits)

lemma StringType_deserialize_consumes:
  "StringType_deserialize input = Inr (v, rest) \<Longrightarrow>
     \<exists>c. input = c @ rest \<and> length c = 8 + length v"
proof -
  assume ok: "StringType_deserialize input = Inr (v, rest)"
  define n where "n = unat (fromLittleEndian input)"
  from ok have len: "\<not> length input < 8" and n: "\<not> length (drop 8 input) < n"
    and v: "v = map char_of_byte (take n (drop 8 input))"
    and rest: "rest = drop n (drop 8 input)"
    by (auto simp: StringType_deserialize_def Let_def n_def split: if_splits)
  have "input = take 8 input @ (take n (drop 8 input) @ drop n (drop 8 input))"
    by (simp only: append_take_drop_id)
  then have "input = (take 8 input @ take n (drop 8 input)) @ rest"
    by (simp add: rest)
  moreover have "length (take 8 input @ take n (drop 8 input)) = 8 + length v"
    using len n by (simp add: v)
  ultimately show ?thesis
    by blast
qed

lemma deserialize_consumes:
  "\<forall>v r. Any_deserialize input1 = Inr (v, r)
      \<longrightarrow> (\<exists>c. input1 = c @ r \<and> 16 \<le> length c)"
  "\<forall>elems' r. VectorType_deserialize elems2 input2 = (elems', Inr r)
      \<longrightarrow> (\<exists>c. input2 = c @ r \<and> 8 + 16 * length elems' \<le> length c)"
  "\<forall>elems' r. deserialize_elements i sz input3 elems3 = (elems', Inr r)
      \<longrightarrow> (\<exists>c. input3 = c @ r \<and> length elems3 \<le> length elems'
             \<and> 16 * (length elems' - length elems3) \<le> length c)"
proof (induct input1 and elems2 input2 and i sz input3 elems3
    rule: Any_deserialize_VectorType_deserialize_deserialize_elements.induct)
  case (1 input)
  show ?case
  proof (intro allI impI)
    fix v r
    assume ok: "Any_deserialize input = Inr (v, r)"
    then have len: "\<not> length input < 8"
      by (auto simp: Any_deserialize.simps [of input])
    have "\<exists>c. drop 8 input = c @ r \<and> 8 \<le> length c"
      using ok len 1
      unfolding Any_deserialize.simps [of input] Let_def
      by (fastforce split: if_splits sum.splits prod.splits
          dest: IntegerType_deserialize_consumes FloatType_deserialize_consumes
            StringType_deserialize_consumes)
    then obtain c where c: "drop 8 input = c @ r" "8 \<le> length c"
      by blast
    have "input = (take 8 input @ c) @ r"
      using c(1) by (metis append_assoc append_take_drop_id)
    moreover have "16 \<le> length (take 8 input @ c)"
      using len c(2) by simp
    ultimately show "\<exists>c. input = c @ r \<and> 16 \<le> length c"
      by blast
  qed
next
  case (2 elems input)
  show ?case
  proof (intro allI impI)
    fix elems' r
    assume ok: "VectorType_deserialize elems input = (elems', Inr r)"
    then have len: "\<not> length input < 8"
      by (auto simp: VectorType_deserialize.simps [of elems input])
    with ok 2 obtain c where c: "drop 8 input = c @ r" "16 * length elems' \<le> length c"
      by (auto simp: VectorType_deserialize.simps [of elems input])
    have "input = (take 8 input @ c) @ r"
      using c(1) by (metis append_assoc append_take_drop_id)
    moreover have "8 + 16 * length elems' \<le> length (take 8 input @ c)"
      using len c(2) by simp
    ultimately show "\<exists>c. input = c @ r \<and> 8 + 16 * length elems' \<le> length c"
      by blast
  qed
next
  case (3 i sz input elems)
  show ?case
  proof (intro allI impI)
    fix elems' r
    assume ok: "deserialize_elements i sz input elems = (elems', Inr r)"
    show "\<exists>c. input = c @ r \<and> length elems \<le> length elems'
             \<and> 16 * (length elems' - length elems) \<le> length c"
    proof (cases "i < sz")
      case False
      then show ?thesis using ok
        by (simp add: deserialize_elements.simps [of i sz])
    next
      case True
      with ok obtain a rest where a: "Any_deserialize input = Inr (a, rest)"
        and next_ok: "deserialize_elements (i + 1) sz rest (elems @ [a]) = (elems', Inr r)"
        by (auto simp: deserialize_elements.simps [of i sz input] split: sum.splits prod.splits)
      from 3(1) [OF True] a obtain c1 where c1: "input = c1 @ rest" "16 \<le> length c1"
        by blast
      from 3(2) [OF True a refl] next_ok obtain c2 where c2: "rest = c2 @ r"
        "length (elems @ [a]) \<le> length elems'"
        "16 * (length elems' - length (elems @ [a])) \<le> length c2"
        by blast
      have "input = (c1 @ c2) @ r"
        using c1(1) c2(1) by simp
      moreover have "length elems \<le> length elems'"
        using c2(2) by simp
      moreover have "16 * (length elems' - length elems) \<le> length (c1 @ c2)"
        using c1(2) c2(2,3) by simp
      ultimately show ?thesis
        by blast
    qed
  qed
qed

text \<open>
  The element loop: when the iterations before \<open>j\<close> succeed and iteration \<open>j\<close>
  throws, the loop with any larger bound throws the same error, with the elements
  decoded so far in the vector it was filling.
\<close>

lemma word_step: "(i :: uint64_t) < j \<Longrightarrow> unat (i + 1) = unat i + 1"
proof -
  assume "i < j"
  then have "unat i < unat j"
    by (simp add: word_less_nat_alt)
  moreover have "unat j < 2 ^ 64"
    using unsigned_less [of j] by simp
  ultimately have "unat i + unat (1 :: uint64_t) < 2 ^ LENGTH(64)"
    by simp
  then have "unat (i + 1) = unat i + unat (1 :: uint64_t)"
    by (simp only: unat_add_lem)
  then show ?thesis
    by simp
qed

lemma deserialize_elements_abort:
  "deserialize_elements i j input elems = (decoded, Inr rest) \<Longrightarrow> i \<le> j \<Longrightarrow> j < sz \<Longrightarrow>
   Any_deserialize rest = Inl e \<Longrightarrow> deserialize_elements i sz input elems = (decoded, Inl e)"
proof (induction "unat j - unat i" arbitrary: i input elems)
  case 0
  then have "i = j"
    by (simp add: word_le_nat_alt word_unat_eq_iff)
  with 0 show ?case
    by (simp add: deserialize_elements.simps [of j j] deserialize_elements.simps [of j sz])
next
  case (Suc n)
  then have lt: "i < j"
    by (simp add: word_less_nat_alt)
  then have "i < sz"
    using Suc.prems(3) by simp
  from lt Suc.prems(1) obtain a r1 where a: "Any_deserialize input = Inr (a, r1)"
    and next_ok: "deserialize_elements (i + 1) j r1 (elems @ [a]) = (decoded, Inr rest)"
    by (auto simp: deserialize_elements.simps [of i j input] split: sum.splits prod.splits)
  have step: "unat (i + 1) = unat i + 1"
    using lt by (rule word_step)
  have "deserialize_elements (i + 1) sz r1 (elems @ [a]) = (decoded, Inl e)"
  proof (rule Suc.hyps(1))
    show "n = unat j - unat (i + 1)" using Suc.hyps(2) step by simp
    show "deserialize_elements (i + 1) j r1 (elems @ [a]) = (decoded, Inr rest)" by (rule next_ok)
    show "i + 1 \<le> j" using lt step by (simp add: word_le_nat_alt word_less_nat_alt)
    show "j < sz" by (rule Suc.prems(3))
    show "Any_deserialize rest = Inl e" by (rule Suc.prems(4))
  qed
  then show ?case
    using \<open>i < sz\<close> a by (simp add: deserialize_elements.simps [of i sz input])
qed

text \<open>
  \<open>StringType_deserialize\<close>: a header shorter than 8 bytes and a declared length
  below \<open>2^63\<close> that exceeds the bytes left both end in \<open>NotEnoughData\<close>; a
  successful call returns exactly the declared number of bytes and leaves what
  follows them.
\<close>

lemma StringType_deserialize_short_header:
  "length input < 8 \<Longrightarrow> StringType_deserialize input = Inl NotEnoughData"
  by (simp add: StringType_deserialize_def)

lemma sint_below: "unat (w :: uint64_t) < 2 ^ 63 \<Longrightarrow> sint w = int (unat w)"
proof -
  assume small: "unat w < 2 ^ 63"
  have "int (unat w) < int (2 ^ 63)"
    using small by (simp only: of_nat_less_iff)
  then have upper: "uint w < 2 ^ 63"
    by simp
  have "- (2 ^ 63) \<le> (0 :: int)"
    by simp
  also have "0 \<le> uint w"
    by simp
  finally have lower: "- (2 ^ 63) \<le> uint w" .
  have "signed_take_bit 63 (uint w) = uint w"
    using lower upper by (rule signed_take_bit_int_eq_self)
  then show ?thesis
    by (simp add: sint_uint)
qed

lemma StringType_deserialize_truncated:
  "8 \<le> length input \<Longrightarrow> unat (fromLittleEndian input) < 2 ^ 63 \<Longrightarrow>
   length input - 8 < unat (fromLittleEndian input) \<Longrightarrow>
   StringType_deserialize input = Inl NotEnoughData"
proof -
  assume len: "8 \<le> length input" and small: "unat (fromLittleEndian input) < 2 ^ 63"
    and short: "length input - 8 < unat (fromLittleEndian input)"
  from short have "int (length input - 8) < int (unat (fromLittleEndian input))"
    by (simp only: of_nat_less_iff)
  then have "int (length (drop 8 input)) < sint (fromLittleEndian input)"
    by (simp only: sint_below [OF small] length_drop)
  then show ?thesis
    using len by (simp add: StringType_deserialize_def Let_def)
qed

lemma StringType_deserialize_Inr:
  "StringType_deserialize input = Inr (v, rest) \<Longrightarrow>
     8 \<le> length input \<and> v = map char_of_byte (take (unat (fromLittleEndian input)) (drop 8 input))
     \<and> length v = unat (fromLittleEndian input)
     \<and> rest = drop (8 + unat (fromLittleEndian input)) input
     \<and> length input = 8 + unat (fromLittleEndian input) + length rest"
  by (auto simp: StringType_deserialize_def Let_def add.commute split: if_splits)

text \<open>
  The discriminant in front of a decoded value is the enumerator of its alternative.
\<close>

lemma Any_deserialize_tag_of_value:
  "Any_deserialize input = Inr (v, rest) \<Longrightarrow>
     fromLittleEndian input = TypeId_value (getPayloadTypeId v)"
  by (auto simp: Any_deserialize.simps [of input] Let_def
      split: if_splits sum.splits prod.splits)

section \<open>Properties of the serializers\<close>

lemma write_TypeId_invalid: "write_TypeId t buffer = Inl InvalidRange"
  by (simp add: write_TypeId_def insert_at_end_def begin_of_def end_of_def)

lemma serialize_elements_nonempty:
  "elements \<noteq> [] \<Longrightarrow> serialize_elements elements buffer = Inl InvalidRange"
proof -
  assume "elements \<noteq> []"
  then obtain element others where "elements = element # others"
    by (cases elements) auto
  then show ?thesis
    by (cases element) (simp_all add: write_TypeId_invalid)
qed

lemma Serializator_serialize_nonempty:
  "storage \<noteq> [] \<Longrightarrow> Serializator_serialize storage = Inl InvalidRange"
  by (simp add: Serializator_serialize_def insert_at_end_whole serialize_elements_nonempty)

lemma Serializator_empty_round_trip:
  "Serializator_serialize [] = Inr [0, 0, 0, 0, 0, 0, 0, 0]
   \<and> Serializator_deserialize [0, 0, 0, 0, 0, 0, 0, 0] = Inr []"
  by code_simp

text \<open>
  The payload serializers and deserializers invert each other: what the Integer and
  String serializers append is read back by their deserializers, which leave the
  bytes that follow (the Float pair is C7 below).
\<close>

lemma sint_le_unat: "sint (w :: uint64_t) \<le> int (unat w)"
proof (cases "unat w < 2 ^ 63")
  case True
  then show ?thesis
    by (simp only: sint_below)
next
  case False
  then have "int (2 ^ 63) \<le> int (unat w)"
    by (simp only: of_nat_le_iff not_less)
  moreover have "sint w < 2 ^ (LENGTH(64) - 1)"
    by (rule sint_lt)
  ultimately show ?thesis
    by simp
qed

lemma IntegerType_payload_round_trip:
  "IntegerType_serialize v buffer = Inr (buffer @ toLittleEndian v)
   \<and> IntegerType_deserialize (toLittleEndian v @ rest) = Inr (v, rest)"
  by (simp add: IntegerType_serialize_def IntegerType_deserialize_def insert_at_end_whole
      fromLittleEndian_toLittleEndian)

lemma StringType_payload_round_trip:
  assumes "length s < 2 ^ 64"
  shows "StringType_serialize s buffer
           = Inr (buffer @ toLittleEndian (of_nat (length s)) @ map byte_of_char s)
   \<and> StringType_deserialize (toLittleEndian (of_nat (length s)) @ map byte_of_char s @ rest)
           = Inr (s, rest)"
proof
  show "StringType_serialize s buffer
           = Inr (buffer @ toLittleEndian (of_nat (length s)) @ map byte_of_char s)"
    by (simp add: StringType_serialize_def Let_def insert_at_end_def begin_of_def end_of_def)
next
  let ?size = "of_nat (length s) :: uint64_t"
  have n: "unat ?size = length s"
    using assms by (simp add: unat_of_nat)
  have "sint ?size \<le> int (length s)"
    using sint_le_unat [of ?size] by (simp only: n)
  then have check: "\<not> int (length (map byte_of_char s @ rest)) < sint ?size"
    by simp
  show "StringType_deserialize (toLittleEndian ?size @ map byte_of_char s @ rest) = Inr (s, rest)"
    using check
    by (simp add: StringType_deserialize_def Let_def fromLittleEndian_toLittleEndian n comp_def)
qed

section \<open>The claims\<close>

text \<open>
  C6. For every \<^verbatim>\<open>uint64_t\<close> value \<open>v\<close>, \<open>toLittleEndian v\<close> has exactly 8 bytes,
  byte \<open>i\<close> is \<open>(v >> 8 * i) mod 256\<close> (least significant byte first), and
  \<open>fromLittleEndian\<close> reads \<open>v\<close> back from those bytes.
\<close>

theorem C6_little_endian_round_trip:
  "length (toLittleEndian v) = 8
   \<and> (\<forall>i<8. unat (toLittleEndian v ! i) = unat v div 2 ^ (8 * i) mod 256)
   \<and> fromLittleEndian (toLittleEndian v) = v"
proof (intro conjI allI impI)
  show "length (toLittleEndian v) = 8" by simp
next
  fix i :: nat
  assume "i < 8"
  then have "toLittleEndian v ! i = ucast (drop_bit (8 * i) v)"
    by (rule toLittleEndian_nth)
  then show "unat (toLittleEndian v ! i) = unat v div 2 ^ (8 * i) mod 256"
    apply (simp add: unsigned_ucast_eq unat_drop_bit_eq drop_bit_eq_div take_bit_eq_mod)
    by (metis drop_bit_eq_div unat_drop_bit_eq)
next
  show "fromLittleEndian (toLittleEndian v) = v"
    using fromLittleEndian_toLittleEndian [of v "[]"] by simp
qed

theorem C6_little_endian_round_trip_witness:
  "length (toLittleEndian 0x0102030405060708) = 8
   \<and> (3 :: nat) < 8
   \<and> unat (toLittleEndian 0x0102030405060708 ! 3)
       = unat (0x0102030405060708 :: uint64_t) div 2 ^ (8 * 3) mod 256
   \<and> fromLittleEndian (toLittleEndian 0x0102030405060708) = 0x0102030405060708"
proof -
  have i: "(3 :: nat) < 8"
    by simp
  show ?thesis
    using i C6_little_endian_round_trip [of "0x0102030405060708"] by blast
qed

text \<open>
  C4. \<open>IntegerType(1)\<close> serializes to \<open>01 00 00 00 00 00 00 00\<close>; \<open>StringType("ab")\<close>
  to the length \<open>02 00 00 00 00 00 00 00\<close> followed by \<open>61 62\<close>; an empty
  \<open>VectorType\<close> to eight zero bytes and nothing else. Each is appended to the buffer
  the serializer is given.
\<close>

theorem C4_exact_byte_layout:
  "IntegerType_serialize 1 buffer = Inr (buffer @ [0x01, 0, 0, 0, 0, 0, 0, 0])
   \<and> StringType_serialize ''ab'' buffer = Inr (buffer @ [0x02, 0, 0, 0, 0, 0, 0, 0, 0x61, 0x62])
   \<and> VectorType_serialize [] buffer = Inr (buffer @ [0, 0, 0, 0, 0, 0, 0, 0])"
proof -
  have le0: "toLittleEndian 0 = [0, 0, 0, 0, 0, 0, 0, 0]"
    by code_simp
  have le1: "toLittleEndian 1 = [1, 0, 0, 0, 0, 0, 0, 0]"
    by code_simp
  have le2: "toLittleEndian 2 = [2, 0, 0, 0, 0, 0, 0, 0]"
    by code_simp
  have a: "byte_of_char CHR ''a'' = 0x61"
    by code_simp
  have b: "byte_of_char CHR ''b'' = 0x62"
    by code_simp
  have "IntegerType_serialize 1 buffer = Inr (buffer @ [0x01, 0, 0, 0, 0, 0, 0, 0])"
    by (simp add: IntegerType_serialize_def insert_at_end_whole le1)
  moreover have "StringType_serialize ''ab'' buffer
      = Inr (buffer @ [0x02, 0, 0, 0, 0, 0, 0, 0, 0x61, 0x62])"
    by (simp add: StringType_serialize_def Let_def le2 a b insert_at_end_def
        begin_of_def end_of_def)
  moreover have "VectorType_serialize [] buffer = Inr (buffer @ [0, 0, 0, 0, 0, 0, 0, 0])"
    by (simp add: insert_at_end_whole le0)
  ultimately show ?thesis
    by blast
qed

text \<open>
  C7. A \<open>FloatType\<close> is written as the little-endian encoding of its 64-bit pattern
  and read back by decoding those eight bytes into the pattern, with no conversion in
  between: for every pattern, deserializing what serialize appended returns the same
  64 bits and consumes exactly the eight bytes.
\<close>

theorem C7_float_bit_pattern_round_trip:
  "FloatType_serialize bits buffer = Inr (buffer @ toLittleEndian bits)
   \<and> FloatType_deserialize (toLittleEndian bits @ rest) = Inr (bits, rest)"
  by (simp add: FloatType_serialize_def FloatType_deserialize_def insert_at_end_whole
      fromLittleEndian_toLittleEndian)

text \<open>
  C2, at the input that separates code and claim: a buffer that holds only the length
  field \<open>FF FF FF FF FF FF FF FF\<close>. The declared length \<open>2^64 - 1\<close> exceeds the zero
  bytes that remain, but as \<^verbatim>\<open>int64_t\<close> it is \<open>-1\<close>, the check
  \<^verbatim>\<open>distance < static_cast<int64_t>(size)\<close> does not fire, and \<^verbatim>\<open>assign\<close> is
  reached with a range that leaves the buffer.
\<close>

theorem C2_length_above_int64_passes_the_check:
  "StringType_deserialize [0xFF, 0xFF, 0xFF, 0xFF, 0xFF, 0xFF, 0xFF, 0xFF] = Inl ReadPastEnd"
proof -
  have size: "fromLittleEndian [0xFF, 0xFF, 0xFF, 0xFF, 0xFF, 0xFF, 0xFF, 0xFF]
      = 0xFFFFFFFFFFFFFFFF"
    by code_simp
  have "sint (0xFFFFFFFFFFFFFFFF :: uint64_t) = - 1"
    by simp
  moreover have "unat (0xFFFFFFFFFFFFFFFF :: uint64_t) = 18446744073709551615"
    by simp
  ultimately show ?thesis
    by (simp add: StringType_deserialize_def size)
qed

text \<open>
  C5, at the tag: whatever the value and the buffer, the statement that writes the
  tag passes \<^verbatim>\<open>insert\<close> the \<^verbatim>\<open>begin()\<close> of one temporary and the
  \<^verbatim>\<open>end()\<close> of another, so \<open>Any_serialize\<close> never gets to a defined write of the
  eight tag bytes.
\<close>

theorem C5_tag_range_spans_two_temporaries:
  "Any_serialize v buffer = Inl InvalidRange"
  by (cases v) (simp_all add: write_TypeId_invalid)

text \<open>
  C1, at a container with one stored value: \<open>Serializator_serialize\<close> writes the
  count and then runs into the tag write of \<open>Any_serialize\<close>, so there is no buffer
  to hand to \<open>Serializator_deserialize\<close>.
\<close>

theorem C1_serialize_of_stored_value:
  "Serializator_serialize [IntegerType 5] = Inl InvalidRange"
  by (simp add: Serializator_serialize_def insert_at_end_whole write_TypeId_invalid)

text \<open>
  C3. With at least 8 bytes at the cursor, \<open>Any_deserialize\<close> decodes the
  discriminant from them; a code outside \<open>{0, 1, 2, 3}\<close> fails with \<open>UnknownTypeID\<close>,
  and the codes 0, 1, 2, 3 hand the bytes after the discriminant to the Integer,
  Float, String and Vector deserializer, whose error or value and cursor become the
  result.
\<close>

theorem C3_discriminant_dispatch:
  assumes "8 \<le> length input"
  shows "(fromLittleEndian input \<notin> {0, 1, 2, 3} \<longrightarrow> Any_deserialize input = Inl UnknownTypeID)
    \<and> (fromLittleEndian input = 0 \<longrightarrow> Any_deserialize input =
          (case IntegerType_deserialize (drop 8 input) of
             Inl e \<Rightarrow> Inl e | Inr (val, rest) \<Rightarrow> Inr (IntegerType val, rest)))
    \<and> (fromLittleEndian input = 1 \<longrightarrow> Any_deserialize input =
          (case FloatType_deserialize (drop 8 input) of
             Inl e \<Rightarrow> Inl e | Inr (val, rest) \<Rightarrow> Inr (FloatType val, rest)))
    \<and> (fromLittleEndian input = 2 \<longrightarrow> Any_deserialize input =
          (case StringType_deserialize (drop 8 input) of
             Inl e \<Rightarrow> Inl e | Inr (val, rest) \<Rightarrow> Inr (StringType val, rest)))
    \<and> (fromLittleEndian input = 3 \<longrightarrow> Any_deserialize input =
          (case VectorType_deserialize [] (drop 8 input) of
             (elems, Inl e) \<Rightarrow> Inl e | (elems, Inr rest) \<Rightarrow> Inr (VectorType elems, rest)))"
  using assms by (simp add: Any_deserialize.simps [of input] Let_def)

theorem C3_discriminant_dispatch_witness:
  "8 \<le> length [7, 0, 0, 0, 0, 0, 0, 0 :: byte]
   \<and> fromLittleEndian [7, 0, 0, 0, 0, 0, 0, 0] \<notin> {0, 1, 2, 3}
   \<and> Any_deserialize [7, 0, 0, 0, 0, 0, 0, 0] = Inl UnknownTypeID
   \<and> 8 \<le> length [2, 0, 0, 0, 0, 0, 0, 0,  1, 0, 0, 0, 0, 0, 0, 0,  0x78 :: byte]
   \<and> fromLittleEndian [2, 0, 0, 0, 0, 0, 0, 0,  1, 0, 0, 0, 0, 0, 0, 0,  0x78] = 2
   \<and> Any_deserialize [2, 0, 0, 0, 0, 0, 0, 0,  1, 0, 0, 0, 0, 0, 0, 0,  0x78]
       = Inr (StringType ''x'', [])"
proof -
  let ?unknown = "[7, 0, 0, 0, 0, 0, 0, 0 :: byte]"
  let ?string = "[2, 0, 0, 0, 0, 0, 0, 0,  1, 0, 0, 0, 0, 0, 0, 0,  0x78 :: byte]"
  have len1: "8 \<le> length ?unknown"
    by simp
  have code1: "fromLittleEndian ?unknown = 7"
    by code_simp
  have len2: "8 \<le> length ?string"
    by simp
  have code2: "fromLittleEndian ?string = 2"
    by code_simp
  have payload: "StringType_deserialize (drop 8 ?string) = Inr (''x'', [])"
    by code_simp
  show ?thesis
    using len1 code1 len2 code2 payload
      C3_discriminant_dispatch [OF len1] C3_discriminant_dispatch [OF len2]
    by simp
qed

text \<open>
  C10. \<open>Serializator_deserialize\<close> reads the declared count of values and nothing
  after them: when a buffer decodes to a sequence, the buffer followed by any extra
  bytes decodes to the same sequence, without an error.
\<close>

theorem C10_trailing_bytes_ignored:
  assumes "Serializator_deserialize buffer = Inr values"
  shows "Serializator_deserialize (buffer @ extra) = Inr values"
proof -
  from assms have len: "\<not> length buffer < 8"
    by (auto simp: Serializator_deserialize_def split: if_splits)
  with assms obtain rest where
    loop: "deserialize_elements 0 (fromLittleEndian buffer) (drop 8 buffer) [] = (values, Inr rest)"
    by (auto simp: Serializator_deserialize_def split: prod.splits sum.splits)
  have "deserialize_elements 0 (fromLittleEndian buffer) (drop 8 buffer @ extra) []
          = (values, Inr (rest @ extra))"
    using deserialize_append(3) loop by blast
  then show ?thesis
    using len by (simp add: Serializator_deserialize_def fromLittleEndian_append)
qed

theorem C10_trailing_bytes_ignored_witness:
  "Serializator_deserialize
     [1, 0, 0, 0, 0, 0, 0, 0,  0, 0, 0, 0, 0, 0, 0, 0,  5, 0, 0, 0, 0, 0, 0, 0]
     = Inr [IntegerType 5]
   \<and> Serializator_deserialize
     ([1, 0, 0, 0, 0, 0, 0, 0,  0, 0, 0, 0, 0, 0, 0, 0,  5, 0, 0, 0, 0, 0, 0, 0] @ [0xDE, 0xAD])
     = Inr [IntegerType 5]"
proof -
  have ok: "Serializator_deserialize
     [1, 0, 0, 0, 0, 0, 0, 0,  0, 0, 0, 0, 0, 0, 0, 0,  5, 0, 0, 0, 0, 0, 0, 0]
     = Inr [IntegerType 5]"
    by code_simp
  show ?thesis
    using ok C10_trailing_bytes_ignored [OF ok, of "[0xDE, 0xAD]"] by simp
qed

text \<open>
  C9. The recursive decode is defined by a terminating recursion (the termination
  proof above) on every finite input, whatever counts and nesting it declares. Every
  call ends in an error or in a value with the cursor advanced: a decoded element
  leaves a proper suffix of its input, at least 8 bytes shorter (16 in fact), a
  decoded vector likewise, and a container that decodes to \<open>n\<close> values was given at
  least \<open>8 + 16 * n\<close> bytes, so a declared count is never followed further than the
  buffer reaches.
\<close>

theorem C9_decode_terminates_with_progress:
  "((\<exists>e. Any_deserialize input = Inl e)
      \<or> (\<exists>v rest consumed. Any_deserialize input = Inr (v, rest)
            \<and> input = consumed @ rest \<and> 8 \<le> length consumed))
   \<and> ((\<exists>partial e. VectorType_deserialize elems input = (partial, Inl e))
      \<or> (\<exists>decoded rest consumed. VectorType_deserialize elems input = (decoded, Inr rest)
            \<and> input = consumed @ rest \<and> 8 \<le> length consumed))
   \<and> ((\<exists>e. Serializator_deserialize input = Inl e)
      \<or> (\<exists>values. Serializator_deserialize input = Inr values
            \<and> 8 + 16 * length values \<le> length input))"
proof (intro conjI)
  show "(\<exists>e. Any_deserialize input = Inl e)
      \<or> (\<exists>v rest consumed. Any_deserialize input = Inr (v, rest)
            \<and> input = consumed @ rest \<and> 8 \<le> length consumed)"
  proof (cases "Any_deserialize input")
    case (Inl e)
    then show ?thesis by blast
  next
    case (Inr p)
    obtain v rest where p: "p = (v, rest)"
      by (cases p)
    with Inr deserialize_consumes(1) [of input]
    obtain c where "input = c @ rest" "16 \<le> length c"
      by blast
    then have "input = c @ rest \<and> 8 \<le> length c"
      by simp
    with Inr p show ?thesis by blast
  qed
next
  show "(\<exists>partial e. VectorType_deserialize elems input = (partial, Inl e))
      \<or> (\<exists>decoded rest consumed. VectorType_deserialize elems input = (decoded, Inr rest)
            \<and> input = consumed @ rest \<and> 8 \<le> length consumed)"
  proof (cases "VectorType_deserialize elems input")
    case (Pair decoded outcome)
    show ?thesis
    proof (cases outcome)
      case (Inl e)
      with Pair show ?thesis by blast
    next
      case (Inr rest)
      with Pair deserialize_consumes(2) [of elems input]
      obtain c where "input = c @ rest" "8 + 16 * length decoded \<le> length c"
        by blast
      then have "input = c @ rest \<and> 8 \<le> length c"
        by simp
      with Pair Inr show ?thesis by blast
    qed
  qed
next
  show "(\<exists>e. Serializator_deserialize input = Inl e)
      \<or> (\<exists>values. Serializator_deserialize input = Inr values
            \<and> 8 + 16 * length values \<le> length input)"
  proof (cases "Serializator_deserialize input")
    case (Inl e)
    then show ?thesis by blast
  next
    case (Inr vals)
    then have len: "\<not> length input < 8"
      by (auto simp: Serializator_deserialize_def split: if_splits)
    with Inr obtain rest where
      loop: "deserialize_elements 0 (fromLittleEndian input) (drop 8 input) [] = (vals, Inr rest)"
      by (auto simp: Serializator_deserialize_def split: prod.splits sum.splits)
    with deserialize_consumes(3) obtain c where
      c: "drop 8 input = c @ rest" "16 * (length vals - length ([] :: Any list)) \<le> length c"
      by blast
    have "length (drop 8 input) = length c + length rest"
      using c(1) by simp
    then have "8 + 16 * length vals \<le> length input"
      using c(2) len by simp
    with Inr show ?thesis by blast
  qed
qed

text \<open>
  C8, at a vector whose count is 2 and whose buffer ends after the first element:
  the failing \<open>VectorType_deserialize\<close> leaves the element decoded before the failure
  in \<^verbatim>\<open>elements_\<close> of the object it was called on.
\<close>

theorem C8_failed_vector_keeps_decoded_prefix:
  "VectorType_deserialize []
     [2, 0, 0, 0, 0, 0, 0, 0,  0, 0, 0, 0, 0, 0, 0, 0,  7, 0, 0, 0, 0, 0, 0, 0]
   = ([IntegerType 7], Inl NotEnoughData)"
  by code_simp

text \<open>
  C8 as amended. A failing step aborts the decode around it with the same error:
  \<^item> a failing Integer, Float or String payload makes \<open>Any_deserialize\<close> fail with
    that error, and so does a failing \<open>VectorType_deserialize\<close>, whether it fails at
    its count header or at an element;
  \<^item> an element that fails with \<open>e\<close> makes the element loop fail with \<open>e\<close>, and a
    loop that fails with \<open>e\<close> makes \<open>VectorType_deserialize\<close> and
    \<open>Serializator_deserialize\<close> fail with \<open>e\<close>;
  \<^item> when the first \<open>j\<close> elements after a count decode and the next one fails with
    \<open>e\<close>, then \<open>VectorType_deserialize\<close> fails with \<open>e\<close>, \<open>Any_deserialize\<close> of that
    vector fails with \<open>e\<close> and \<open>Serializator_deserialize\<close> fails with \<open>e\<close>;
  \<^item> fewer than 8 bytes where a count or a discriminant is due fail with
    \<open>NotEnoughData\<close>.
  A failing \<open>Any_deserialize\<close> or \<open>Serializator_deserialize\<close> returns the error and no
  value. The \<open>VectorType\<close> object on which deserialize was called keeps the elements
  it had before the call when the count header fails, and holds the elements decoded
  before the failure when an element fails.
\<close>

theorem C8_failure_aborts_enclosing_decode:
  "(IntegerType_deserialize payload = Inl e
      \<longrightarrow> Any_deserialize (toLittleEndian (TypeId_value Uint) @ payload) = Inl e)
   \<and> (FloatType_deserialize payload = Inl e
      \<longrightarrow> Any_deserialize (toLittleEndian (TypeId_value Float) @ payload) = Inl e)
   \<and> (StringType_deserialize payload = Inl e
      \<longrightarrow> Any_deserialize (toLittleEndian (TypeId_value String) @ payload) = Inl e)
   \<and> (8 \<le> length input \<and> j < fromLittleEndian input
        \<and> deserialize_elements 0 j (drop 8 input) [] = (decoded, Inr rest)
        \<and> Any_deserialize rest = Inl e
      \<longrightarrow> VectorType_deserialize elems input = (decoded, Inl e)
        \<and> Any_deserialize (toLittleEndian (TypeId_value Vector) @ input) = Inl e
        \<and> Serializator_deserialize input = Inl e)
   \<and> (8 \<le> length tagged \<and> fromLittleEndian tagged = TypeId_value Uint
        \<and> IntegerType_deserialize (drop 8 tagged) = Inl e
      \<longrightarrow> Any_deserialize tagged = Inl e)
   \<and> (8 \<le> length tagged \<and> fromLittleEndian tagged = TypeId_value Float
        \<and> FloatType_deserialize (drop 8 tagged) = Inl e
      \<longrightarrow> Any_deserialize tagged = Inl e)
   \<and> (8 \<le> length tagged \<and> fromLittleEndian tagged = TypeId_value String
        \<and> StringType_deserialize (drop 8 tagged) = Inl e
      \<longrightarrow> Any_deserialize tagged = Inl e)
   \<and> (8 \<le> length tagged \<and> fromLittleEndian tagged = TypeId_value Vector
        \<and> VectorType_deserialize [] (drop 8 tagged) = (partial, Inl e)
      \<longrightarrow> Any_deserialize tagged = Inl e)
   \<and> (VectorType_deserialize [] payload = (partial, Inl e)
      \<longrightarrow> Any_deserialize (toLittleEndian (TypeId_value Vector) @ payload) = Inl e)
   \<and> (length short < 8
      \<longrightarrow> VectorType_deserialize elems short = (elems, Inl NotEnoughData)
        \<and> Any_deserialize (toLittleEndian (TypeId_value Vector) @ short) = Inl NotEnoughData
        \<and> Any_deserialize short = Inl NotEnoughData
        \<and> Serializator_deserialize short = Inl NotEnoughData)
   \<and> (8 \<le> length input
        \<and> deserialize_elements 0 (fromLittleEndian input) (drop 8 input) [] = (filled, Inl e)
      \<longrightarrow> VectorType_deserialize elems input = (filled, Inl e)
        \<and> Any_deserialize (toLittleEndian (TypeId_value Vector) @ input) = Inl e
        \<and> Serializator_deserialize input = Inl e)
   \<and> (i < sz \<and> Any_deserialize rest = Inl e
      \<longrightarrow> deserialize_elements i sz rest elems = (elems, Inl e))"
proof (intro conjI impI)
  assume "IntegerType_deserialize payload = Inl e"
  then show "Any_deserialize (toLittleEndian (TypeId_value Uint) @ payload) = Inl e"
    by (simp add: Any_deserialize_tagged)
next
  assume "FloatType_deserialize payload = Inl e"
  then show "Any_deserialize (toLittleEndian (TypeId_value Float) @ payload) = Inl e"
    by (simp add: Any_deserialize_tagged)
next
  assume "StringType_deserialize payload = Inl e"
  then show "Any_deserialize (toLittleEndian (TypeId_value String) @ payload) = Inl e"
    by (simp add: Any_deserialize_tagged)
next
  assume h: "8 \<le> length input \<and> j < fromLittleEndian input
        \<and> deserialize_elements 0 j (drop 8 input) [] = (decoded, Inr rest)
        \<and> Any_deserialize rest = Inl e"
  then have loop: "deserialize_elements 0 (fromLittleEndian input) (drop 8 input) []
      = (decoded, Inl e)"
    using deserialize_elements_abort [of 0 j "drop 8 input" "[]" decoded rest
        "fromLittleEndian input" e]
    by simp
  from h have len: "\<not> length input < 8"
    by simp
  show vec: "VectorType_deserialize elems input = (decoded, Inl e)"
    using len loop by (simp add: VectorType_deserialize.simps [of elems input])
  have "VectorType_deserialize [] input = (decoded, Inl e)"
    using len loop by (simp add: VectorType_deserialize.simps [of "[]" input])
  then show "Any_deserialize (toLittleEndian (TypeId_value Vector) @ input) = Inl e"
    by (simp add: Any_deserialize_tagged)
  show "Serializator_deserialize input = Inl e"
    using len loop by (simp add: Serializator_deserialize_def)
next
  assume "8 \<le> length tagged \<and> fromLittleEndian tagged = TypeId_value Uint
        \<and> IntegerType_deserialize (drop 8 tagged) = Inl e"
  then show "Any_deserialize tagged = Inl e"
    by (simp add: Any_deserialize.simps [of tagged] Let_def)
next
  assume "8 \<le> length tagged \<and> fromLittleEndian tagged = TypeId_value Float
        \<and> FloatType_deserialize (drop 8 tagged) = Inl e"
  then show "Any_deserialize tagged = Inl e"
    by (simp add: Any_deserialize.simps [of tagged] Let_def)
next
  assume "8 \<le> length tagged \<and> fromLittleEndian tagged = TypeId_value String
        \<and> StringType_deserialize (drop 8 tagged) = Inl e"
  then show "Any_deserialize tagged = Inl e"
    by (simp add: Any_deserialize.simps [of tagged] Let_def)
next
  assume "8 \<le> length tagged \<and> fromLittleEndian tagged = TypeId_value Vector
        \<and> VectorType_deserialize [] (drop 8 tagged) = (partial, Inl e)"
  then show "Any_deserialize tagged = Inl e"
    by (simp add: Any_deserialize.simps [of tagged] Let_def)
next
  assume "VectorType_deserialize [] payload = (partial, Inl e)"
  then show "Any_deserialize (toLittleEndian (TypeId_value Vector) @ payload) = Inl e"
    by (simp add: Any_deserialize_tagged)
next
  assume short: "length short < 8"
  then show "VectorType_deserialize elems short = (elems, Inl NotEnoughData)"
    by (simp add: VectorType_deserialize.simps [of elems short])
  from short have "VectorType_deserialize [] short = ([], Inl NotEnoughData)"
    by (simp add: VectorType_deserialize.simps [of "[]" short])
  then show "Any_deserialize (toLittleEndian (TypeId_value Vector) @ short) = Inl NotEnoughData"
    by (simp add: Any_deserialize_tagged)
  from short show "Any_deserialize short = Inl NotEnoughData"
    by (simp add: Any_deserialize.simps [of short])
  from short show "Serializator_deserialize short = Inl NotEnoughData"
    by (simp add: Serializator_deserialize_def)
next
  assume h: "8 \<le> length input
        \<and> deserialize_elements 0 (fromLittleEndian input) (drop 8 input) [] = (filled, Inl e)"
  then have len: "\<not> length input < 8"
    by simp
  from h have loop: "deserialize_elements 0 (fromLittleEndian input) (drop 8 input) []
      = (filled, Inl e)"
    by simp
  show "VectorType_deserialize elems input = (filled, Inl e)"
    using len loop by (simp add: VectorType_deserialize.simps [of elems input])
  have "VectorType_deserialize [] input = (filled, Inl e)"
    using len loop by (simp add: VectorType_deserialize.simps [of "[]" input])
  then show "Any_deserialize (toLittleEndian (TypeId_value Vector) @ input) = Inl e"
    by (simp add: Any_deserialize_tagged)
  show "Serializator_deserialize input = Inl e"
    using len loop by (simp add: Serializator_deserialize_def)
next
  assume "i < sz \<and> Any_deserialize rest = Inl e"
  then show "deserialize_elements i sz rest elems = (elems, Inl e)"
    by (simp add: deserialize_elements.simps [of i sz rest elems])
qed

theorem C8_failure_aborts_enclosing_decode_witness:
  "IntegerType_deserialize [] = Inl NotEnoughData
   \<and> Any_deserialize (toLittleEndian (TypeId_value Uint) @ []) = Inl NotEnoughData
   \<and> 8 \<le> length [2, 0, 0, 0, 0, 0, 0, 0,  0, 0, 0, 0, 0, 0, 0, 0,  7, 0, 0, 0, 0, 0, 0, 0 :: byte]
   \<and> 1 < fromLittleEndian
            [2, 0, 0, 0, 0, 0, 0, 0,  0, 0, 0, 0, 0, 0, 0, 0,  7, 0, 0, 0, 0, 0, 0, 0]
   \<and> deserialize_elements 0 1
        (drop 8 [2, 0, 0, 0, 0, 0, 0, 0,  0, 0, 0, 0, 0, 0, 0, 0,  7, 0, 0, 0, 0, 0, 0, 0]) []
       = ([IntegerType 7], Inr [])
   \<and> Any_deserialize [] = Inl NotEnoughData
   \<and> VectorType_deserialize [StringType ''old'']
        [2, 0, 0, 0, 0, 0, 0, 0,  0, 0, 0, 0, 0, 0, 0, 0,  7, 0, 0, 0, 0, 0, 0, 0]
       = ([IntegerType 7], Inl NotEnoughData)
   \<and> Any_deserialize (toLittleEndian (TypeId_value Vector) @
        [2, 0, 0, 0, 0, 0, 0, 0,  0, 0, 0, 0, 0, 0, 0, 0,  7, 0, 0, 0, 0, 0, 0, 0])
       = Inl NotEnoughData
   \<and> Serializator_deserialize
        [2, 0, 0, 0, 0, 0, 0, 0,  0, 0, 0, 0, 0, 0, 0, 0,  7, 0, 0, 0, 0, 0, 0, 0]
       = Inl NotEnoughData
   \<and> 8 \<le> length [3, 0, 0, 0, 0, 0, 0, 0,  1, 2, 3 :: byte]
   \<and> fromLittleEndian [3, 0, 0, 0, 0, 0, 0, 0,  1, 2, 3] = TypeId_value Vector
   \<and> VectorType_deserialize [] (drop 8 [3, 0, 0, 0, 0, 0, 0, 0,  1, 2, 3])
       = ([], Inl NotEnoughData)
   \<and> Any_deserialize [3, 0, 0, 0, 0, 0, 0, 0,  1, 2, 3] = Inl NotEnoughData
   \<and> length [1, 2, 3 :: byte] < 8
   \<and> VectorType_deserialize [StringType ''old''] [1, 2, 3]
       = ([StringType ''old''], Inl NotEnoughData)
   \<and> Any_deserialize (toLittleEndian (TypeId_value Vector) @ [1, 2, 3]) = Inl NotEnoughData
   \<and> (0 :: uint64_t) < 1
   \<and> deserialize_elements 0 1 [] [StringType ''old'']
       = ([StringType ''old''], Inl NotEnoughData)
   \<and> 8 \<le> length [0, 0, 0, 0, 0, 0, 0, 0,  1, 2, 3 :: byte]
   \<and> fromLittleEndian [0, 0, 0, 0, 0, 0, 0, 0,  1, 2, 3] = TypeId_value Uint
   \<and> IntegerType_deserialize (drop 8 [0, 0, 0, 0, 0, 0, 0, 0,  1, 2, 3]) = Inl NotEnoughData
   \<and> Any_deserialize [0, 0, 0, 0, 0, 0, 0, 0,  1, 2, 3] = Inl NotEnoughData"
proof -
  let ?input = "[2, 0, 0, 0, 0, 0, 0, 0,  0, 0, 0, 0, 0, 0, 0, 0,  7, 0, 0, 0, 0, 0, 0, 0 :: byte]"
  let ?vector = "[3, 0, 0, 0, 0, 0, 0, 0,  1, 2, 3 :: byte]"
  let ?integer = "[0, 0, 0, 0, 0, 0, 0, 0,  1, 2, 3 :: byte]"
  have int: "IntegerType_deserialize [] = Inl NotEnoughData"
    by code_simp
  have len: "8 \<le> length ?input"
    by simp
  have count: "1 < fromLittleEndian ?input"
    by code_simp
  have loop: "deserialize_elements 0 1 (drop 8 ?input) [] = ([IntegerType 7], Inr [])"
    by code_simp
  have inner: "Any_deserialize [] = Inl NotEnoughData"
    by code_simp
  have filled: "deserialize_elements 0 (fromLittleEndian ?input) (drop 8 ?input) []
      = ([IntegerType 7], Inl NotEnoughData)"
    by code_simp
  have vlen: "8 \<le> length ?vector"
    by simp
  have vtag: "fromLittleEndian ?vector = TypeId_value Vector"
    by code_simp
  have vhdr: "VectorType_deserialize [] (drop 8 ?vector) = ([], Inl NotEnoughData)"
    by code_simp
  have vpay: "VectorType_deserialize [] [1, 2, 3] = ([], Inl NotEnoughData)"
    by code_simp
  have short: "length [1, 2, 3 :: byte] < 8"
    by simp
  have step: "(0 :: uint64_t) < 1"
    by simp
  have ilen: "8 \<le> length ?integer"
    by simp
  have itag: "fromLittleEndian ?integer = TypeId_value Uint"
    by code_simp
  have ipay: "IntegerType_deserialize (drop 8 ?integer) = Inl NotEnoughData"
    by code_simp
  note at_vector = C8_failure_aborts_enclosing_decode
    [where payload = "[]" and e = NotEnoughData and input = ?input and j = 1
       and decoded = "[IntegerType 7]" and rest = "[]" and elems = "[StringType ''old'']"
       and tagged = ?vector and partial = "[]" and short = "[1, 2, 3]"
       and filled = "[IntegerType 7]" and i = 0 and sz = 1]
  note at_integer = C8_failure_aborts_enclosing_decode
    [where e = NotEnoughData and tagged = ?integer]
  have vector_any: "Any_deserialize ?vector = Inl NotEnoughData"
    using at_vector vlen vtag vhdr by simp
  have integer_any: "Any_deserialize ?integer = Inl NotEnoughData"
    using at_integer ilen itag ipay by simp
  have hdr: "VectorType_deserialize [StringType ''old''] [1, 2, 3]
        = ([StringType ''old''], Inl NotEnoughData)
      \<and> Any_deserialize (toLittleEndian (TypeId_value Vector) @ [1, 2, 3]) = Inl NotEnoughData"
    using at_vector short by simp
  have elem: "deserialize_elements 0 1 [] [StringType ''old'']
      = ([StringType ''old''], Inl NotEnoughData)"
    using at_vector step inner by simp
  have int_any: "Any_deserialize (toLittleEndian (TypeId_value Uint) @ []) = Inl NotEnoughData"
    using at_vector int by simp
  have vec: "VectorType_deserialize [StringType ''old''] ?input
        = ([IntegerType 7], Inl NotEnoughData)
      \<and> Any_deserialize (toLittleEndian (TypeId_value Vector) @ ?input) = Inl NotEnoughData
      \<and> Serializator_deserialize ?input = Inl NotEnoughData"
    using at_vector len count loop inner by simp
  show ?thesis
    using int len count loop inner vec int_any vlen vtag vhdr vector_any short hdr step elem
      ilen itag ipay integer_any
    by simp
qed

end
